theory Spec2Isabelle
  imports Main
begin

section \<open>Strings\<close>

text \<open>
  A Python \<^verbatim>\<open>str\<close> is a sequence of Unicode code points, and \<^verbatim>\<open>re.sub\<close>, \<^verbatim>\<open>len\<close> and
  concatenation all work code point by code point. A string is therefore a list of code
  points (natural numbers), not a list of bytes; \<open>ustr\<close> embeds an ASCII literal.
\<close>

type_synonym ustring = "nat list"

definition ustr :: "string \<Rightarrow> ustring" where
  "ustr s = map of_char s"

text \<open>\<^verbatim>\<open>str(n)\<close> for a non-negative integer: its decimal digits.\<close>

fun str_nat :: "nat \<Rightarrow> ustring" where
  "str_nat n = (if n < 10 then [48 + n] else str_nat (n div 10) @ [48 + n mod 10])"

declare str_nat.simps [simp del]

text \<open>\<^verbatim>\<open>sep.join(xs)\<close>.\<close>

fun join_str :: "ustring \<Rightarrow> ustring list \<Rightarrow> ustring" where
  "join_str sep [] = []"
| "join_str sep [x] = x"
| "join_str sep (x # y # ys) = x @ sep @ join_str sep (y # ys)"

text \<open>
  \<^verbatim>\<open>os.path.join(a, b)\<close> with two arguments, as \<^verbatim>\<open>posixpath\<close> defines it: an absolute second
  component replaces the first, otherwise the two are glued with one \<^verbatim>\<open>/\<close> (code point 47).
\<close>

definition path_join :: "ustring \<Rightarrow> ustring \<Rightarrow> ustring" where
  "path_join a b =
     (if take 1 b = [47] then b
      else if a = [] \<or> last a = 47 then a @ b
      else a @ [47] @ b)"

section \<open>Filename sanitizer\<close>

text \<open>
  \<^verbatim>\<open>def sanitize_filename(name): return re.sub(r'[<>:"/\\|?*]', "_", name)\<close>

  The pattern is a character class of nine characters (the doubled backslash in the raw
  string is one escaped backslash), so every single code point in the class is one match
  and is replaced by one underscore.
\<close>

definition reserved :: "nat list" where
  "reserved = map of_char
     [CHR ''<'', CHR ''>'', CHR '':'', CHR 0x22, CHR ''/'', CHR 0x5C, CHR ''|'', CHR ''?'', CHR ''*'']"

definition underscore :: nat where
  "underscore = of_char CHR ''_''"

definition sanitize_filename :: "ustring \<Rightarrow> ustring" where
  "sanitize_filename name = map (\<lambda>c. if c \<in> set reserved then underscore else c) name"

section \<open>Console log\<close>

text \<open>
  \<^verbatim>\<open>log(message, level)\<close> prints one line on the console. The model keeps the lines in
  order, each with its level; icons and colours are presentation only.
\<close>

datatype level = Info | Success | Error | Warning

section \<open>Data of the catalog and of the downloader process\<close>

text \<open>
  The catalog's playlist object, as far as the code reads it: \<^verbatim>\<open>playlist["name"]\<close>,
  \<^verbatim>\<open>playlist["tracks"]["items"]\<close>, \<^verbatim>\<open>playlist["tracks"]["next"]\<close>, and for every item
  \<^verbatim>\<open>item["track"]\<close>, which is null for a removed track and otherwise an object with
  \<^verbatim>\<open>name\<close> and \<^verbatim>\<open>artists\<close> (each artist an object with a \<^verbatim>\<open>name\<close>). The code tests both
  \<^verbatim>\<open>item["track"]\<close> and \<^verbatim>\<open>["next"]\<close> by truthiness; on the catalog's values (an object
  with fields, a page URL, or null) that is the test for null.
\<close>

record track =
  track_name :: ustring
  track_artists :: "ustring list"

record page =
  items :: "track option list"
  next_page :: "ustring option"

record playlist =
  playlist_name :: ustring
  playlist_tracks :: page

text \<open>A raised exception, with the text \<^verbatim>\<open>str(e)\<close> the handlers print.\<close>

datatype exn = Exn ustring

fun exn_str :: "exn \<Rightarrow> ustring" where
  "exn_str (Exn s) = s"

text \<open>What \<^verbatim>\<open>subprocess.run\<close> returns, as far as the code reads it.\<close>

record completed_process =
  returncode :: int
  stderr :: ustring

text \<open>The \<^verbatim>\<open>Download\<close> section of the configuration, which \<^verbatim>\<open>load_config\<close> always fills.\<close>

record config =
  cfg_audio_quality :: ustring
  cfg_format :: ustring
  cfg_video_format :: ustring

section \<open>Environment and state\<close>

text \<open>
  The things outside the program: the catalog client (\<^verbatim>\<open>spotify.playlist\<close>,
  \<^verbatim>\<open>spotify.next\<close>), \<^verbatim>\<open>os.makedirs(path, exist_ok=True)\<close> and the downloader process
  started by \<^verbatim>\<open>subprocess.run\<close>. Each may raise; the last two may change the set of
  existing paths in any way.
\<close>

record env =
  spotify_playlist :: "ustring \<Rightarrow> exn + playlist"
  spotify_next :: "ustring \<Rightarrow> exn + page"
  os_makedirs :: "ustring \<Rightarrow> ustring set \<Rightarrow> exn + ustring set"
  subprocess_run :: "ustring list \<Rightarrow> ustring set \<Rightarrow> (exn + completed_process) \<times> ustring set"

text \<open>The calls that leave the program, recorded in the order they are made.\<close>

datatype event =
    Playlist_request ustring
  | Next_request ustring
  | Makedirs ustring
  | Subprocess "ustring list"

record world =
  fs :: "ustring set"
  logs :: "(level \<times> ustring) list"
  calls :: "event list"

definition log :: "ustring \<Rightarrow> level \<Rightarrow> world \<Rightarrow> world" where
  "log message lvl w = w\<lparr>logs := logs w @ [(lvl, message)]\<rparr>"

definition record_call :: "event \<Rightarrow> world \<Rightarrow> world" where
  "record_call e w = w\<lparr>calls := calls w @ [e]\<rparr>"

section \<open>Media fetcher\<close>

text \<open>\<^verbatim>\<open>re.match(r"^https?://", query)\<close>.\<close>

definition is_url :: "ustring \<Rightarrow> bool" where
  "is_url query \<longleftrightarrow> take 7 query = ustr ''http://'' \<or> take 8 query = ustr ''https://''"

text \<open>
  \<^verbatim>\<open>download_youtube(query, output_path, is_video, config)\<close>, called with a configuration
  (the orchestrator always passes one). The command line is built first; the process is
  run inside \<^verbatim>\<open>try\<close>, so an exception of \<^verbatim>\<open>subprocess.run\<close> is logged and gives
  \<^verbatim>\<open>False\<close>, as a non-zero return code does after logging the process's stderr.
\<close>

definition build_command :: "ustring \<Rightarrow> ustring \<Rightarrow> bool \<Rightarrow> config \<Rightarrow> ustring list" where
  "build_command query output_path is_video cfg =
     (let output_template = path_join output_path (ustr ''%(title)s.%(ext)s'');
          command = [ustr ''yt-dlp'', ustr ''-o'', output_template, ustr ''--no-warnings'']
      in if is_video then
           command
           @ [ustr ''-f'', ustr ''bestvideo[ext=mp4]+bestaudio[ext=m4a]/best'',
              ustr ''--merge-output-format'', cfg_video_format cfg]
           @ [if \<not> is_url query then ustr ''ytsearch1:'' @ query @ ustr '' official video''
              else query]
         else
           command
           @ [ustr ''-x'', ustr ''--audio-format'', cfg_format cfg,
              ustr ''--audio-quality'', cfg_audio_quality cfg,
              ustr ''--embed-thumbnail'', ustr ''--add-metadata'', ustr ''--embed-metadata'',
              ustr ''--prefer-ffmpeg'']
           @ [if \<not> is_url query then ustr ''ytsearch1:'' @ query @ ustr '' official audio''
              else query])"

definition download_youtube ::
  "env \<Rightarrow> ustring \<Rightarrow> ustring \<Rightarrow> bool \<Rightarrow> config \<Rightarrow> world \<Rightarrow> bool \<times> world" where
  "download_youtube env query output_path is_video cfg w =
     (let command = build_command query output_path is_video cfg;
          w1 = record_call (Subprocess command) w
      in case subprocess_run env command (fs w1) of
           (Inl e, fs') \<Rightarrow>
             (False, log (ustr ''Download error: '' @ exn_str e) Error (w1\<lparr>fs := fs'\<rparr>))
         | (Inr result, fs') \<Rightarrow>
             if returncode result = 0 then (True, w1\<lparr>fs := fs'\<rparr>)
             else (False, log (ustr ''Download failed: '' @ stderr result) Error (w1\<lparr>fs := fs'\<rparr>)))"

section \<open>Playlist orchestrator\<close>

text \<open>
  \<^verbatim>\<open>re.search(r"(?:playlist/|playlist:)([a-zA-Z0-9]+)", url)\<close>: the leftmost position where
  one of the two markers is followed by at least one ASCII letter or digit; group 1 is the
  longest run of such characters there.
\<close>

definition is_alnum :: "nat \<Rightarrow> bool" where
  "is_alnum c \<longleftrightarrow> (97 \<le> c \<and> c \<le> 122) \<or> (65 \<le> c \<and> c \<le> 90) \<or> (48 \<le> c \<and> c \<le> 57)"

definition match_playlist_at :: "ustring \<Rightarrow> ustring option" where
  "match_playlist_at s =
     (if take 9 s = ustr ''playlist/'' \<or> take 9 s = ustr ''playlist:''
      then (let g = takeWhile is_alnum (drop 9 s) in if g = [] then None else Some g)
      else None)"

fun search_playlist :: "ustring \<Rightarrow> ustring option" where
  "search_playlist [] = None"
| "search_playlist (c # cs) =
     (case match_playlist_at (c # cs) of
        Some g \<Rightarrow> Some g
      | None \<Rightarrow> search_playlist cs)"

text \<open>
  The pagination loop:
  \<^verbatim>\<open>while playlist["tracks"]["next"]:
      playlist["tracks"] = spotify.next(playlist["tracks"])
      tracks.extend(playlist["tracks"]["items"])\<close>
  It runs as long as the catalog keeps handing out cursors, so it need not return:
  \<open>None\<close> is the run that never leaves the loop. An exception of \<^verbatim>\<open>spotify.next\<close> leaves
  it with \<open>Inl\<close>.
\<close>

partial_function (option) fetch_pages ::
  "env \<Rightarrow> page \<Rightarrow> track option list \<Rightarrow> world \<Rightarrow> ((exn + track option list) \<times> world) option" where
  "fetch_pages env pg tracks w =
     (case next_page pg of
        None \<Rightarrow> Some (Inr tracks, w)
      | Some cursor \<Rightarrow>
          (case spotify_next env cursor of
             Inl e \<Rightarrow> Some (Inl e, record_call (Next_request cursor) w)
           | Inr pg' \<Rightarrow>
               fetch_pages env pg' (tracks @ items pg') (record_call (Next_request cursor) w)))"

declare fetch_pages.simps [code]

record counters =
  successful_downloads :: nat
  skipped_downloads :: nat
  failed_downloads :: nat

text \<open>The query and the file name of the existence check, lines 196 to 199.\<close>

definition track_query :: "track \<Rightarrow> ustring" where
  "track_query t = join_str (ustr '', '') (track_artists t) @ ustr '' - '' @ track_name t"

definition expected_filename :: "ustring \<Rightarrow> track \<Rightarrow> ustring" where
  "expected_filename full_path t =
     path_join full_path (sanitize_filename (track_query t @ ustr ''.mp3''))"

text \<open>The prefix \<^verbatim>\<open>[{i}/{len(tracks)}]\<close> of the per-track log lines.\<close>

definition progress_tag :: "nat \<Rightarrow> nat \<Rightarrow> ustring" where
  "progress_tag i n_tracks = ustr ''['' @ str_nat i @ ustr ''/'' @ str_nat n_tracks @ ustr ''] ''"

text \<open>
  One iteration of the loop over \<^verbatim>\<open>enumerate(tracks, 1)\<close>: a null track is passed over,
  an existing file is counted as skipped, anything else goes to the media fetcher and is
  counted by its result. The check mark and the cross are the code points 10003 and 10007.
\<close>

definition process_item ::
  "env \<Rightarrow> config \<Rightarrow> ustring \<Rightarrow> nat \<Rightarrow> nat \<Rightarrow> track option \<Rightarrow> counters \<times> world \<Rightarrow> counters \<times> world" where
  "process_item env cfg full_path n_tracks i item st =
     (case item of
        None \<Rightarrow> st
      | Some t \<Rightarrow>
          (let (c, w) = st;
               query = track_query t;
               filename = expected_filename full_path t
           in if filename \<in> fs w then
                (c\<lparr>skipped_downloads := skipped_downloads c + 1\<rparr>,
                 log (progress_tag i n_tracks @ ustr ''Skipping (exists): '' @ query) Warning w)
              else
                (let w1 = log (progress_tag i n_tracks @ ustr ''Downloading: '' @ query) Info w;
                     (success, w2) = download_youtube env query full_path False cfg w1
                 in if success then
                      (c\<lparr>successful_downloads := successful_downloads c + 1\<rparr>,
                       log (progress_tag i n_tracks @ [10003] @ ustr '' Downloaded: '' @ query)
                         Success w2)
                    else
                      (c\<lparr>failed_downloads := failed_downloads c + 1\<rparr>,
                       log (progress_tag i n_tracks @ [10007] @ ustr '' Failed: '' @ query)
                         Error w2))))"

fun track_loop ::
  "env \<Rightarrow> config \<Rightarrow> ustring \<Rightarrow> nat \<Rightarrow> nat \<Rightarrow> track option list \<Rightarrow> counters \<times> world \<Rightarrow> counters \<times> world" where
  "track_loop env cfg full_path n_tracks i [] st = st"
| "track_loop env cfg full_path n_tracks i (item # rest) st =
     track_loop env cfg full_path n_tracks (Suc i) rest
       (process_item env cfg full_path n_tracks i item st)"

text \<open>
  The three ways \<^verbatim>\<open>convert_spotify_playlist\<close> returns: the early return when the reference
  does not match, the handler of the outer \<^verbatim>\<open>try\<close>, and the end of the function after the
  summary line.
\<close>

datatype outcome = Invalid_url | Aborted exn | Completed counters

definition abort :: "exn \<Rightarrow> world \<Rightarrow> outcome \<times> world" where
  "abort e w = (Aborted e, log (ustr ''Error converting playlist: '' @ exn_str e) Error w)"

definition summary_line :: "counters \<Rightarrow> ustring" where
  "summary_line c =
     ustr ''Download complete: '' @ str_nat (successful_downloads c) @ ustr '' successful, ''
     @ str_nat (skipped_downloads c) @ ustr '' skipped, ''
     @ str_nat (failed_downloads c) @ ustr '' failed''"

definition convert_spotify_playlist ::
  "env \<Rightarrow> ustring \<Rightarrow> ustring \<Rightarrow> config \<Rightarrow> world \<Rightarrow> (outcome \<times> world) option" where
  "convert_spotify_playlist env url output_dir cfg w =
     (case search_playlist url of
        None \<Rightarrow> Some (Invalid_url, log (ustr ''Invalid Spotify playlist URL'') Error w)
      | Some pid \<Rightarrow>
          (let w1 = record_call (Playlist_request pid) w in
           case spotify_playlist env pid of
             Inl e \<Rightarrow> Some (abort e w1)
           | Inr pl \<Rightarrow>
               (let name = sanitize_filename (playlist_name pl);
                    full_path = path_join output_dir name;
                    w2 = record_call (Makedirs full_path) w1
                in case os_makedirs env full_path (fs w2) of
                     Inl e \<Rightarrow> Some (abort e w2)
                   | Inr fs' \<Rightarrow>
                       (let w3 = log (ustr ''Output directory: '' @ full_path) Info
                                   (log (ustr ''Playlist: '' @ name) Info (w2\<lparr>fs := fs'\<rparr>))
                        in case fetch_pages env (playlist_tracks pl)
                                  (items (playlist_tracks pl)) w3 of
                             None \<Rightarrow> None
                           | Some (Inl e, w4) \<Rightarrow> Some (abort e w4)
                           | Some (Inr tracks, w4) \<Rightarrow>
                               (let w5 = log (ustr ''Found '' @ str_nat (length tracks)
                                              @ ustr '' tracks in playlist'') Info w4;
                                    (c, w6) = track_loop env cfg full_path (length tracks) 1 tracks
                                       (\<lparr>successful_downloads = 0, skipped_downloads = 0,
                                         failed_downloads = 0\<rparr>, w5)
                                in Some (Completed c, log (summary_line c) Info w6))))))"

section \<open>Pages of a playlist\<close>

text \<open>
  What it means for the catalog to hold a playlist in finitely many pages: starting at the
  first page \<open>pg\<close>, every cursor leads (through \<^verbatim>\<open>spotify.next\<close>) to the next page of
  \<open>rest\<close>, and the last page has no cursor.
\<close>

fun page_chain :: "env \<Rightarrow> page \<Rightarrow> page list \<Rightarrow> bool" where
  "page_chain env pg [] \<longleftrightarrow> next_page pg = None"
| "page_chain env pg (p # ps) \<longleftrightarrow>
     (case next_page pg of
        None \<Rightarrow> False
      | Some cursor \<Rightarrow> spotify_next env cursor = Inr p \<and> page_chain env p ps)"

section \<open>A test scenario\<close>

text \<open>
  The playlist "Road Trip": two pages, three entries, the second entry a removed track.
  The downloader finds the first song and writes its file, and finds nothing else.
\<close>

definition song_one :: track where
  "song_one = \<lparr>track_name = ustr ''Song One'', track_artists = [ustr ''Artist A'']\<rparr>"

definition song_two :: track where
  "song_two = \<lparr>track_name = ustr ''Song Two'',
                track_artists = [ustr ''Artist B'', ustr ''Artist C'']\<rparr>"

definition road_trip_page2 :: page where
  "road_trip_page2 = \<lparr>items = [Some song_two], next_page = None\<rparr>"

definition road_trip_page1 :: page where
  "road_trip_page1 = \<lparr>items = [Some song_one, None], next_page = Some (ustr ''page2'')\<rparr>"

definition road_trip :: playlist where
  "road_trip = \<lparr>playlist_name = ustr ''Road Trip'', playlist_tracks = road_trip_page1\<rparr>"

definition empty_playlist :: playlist where
  "empty_playlist = \<lparr>playlist_name = ustr ''Empty'',
                      playlist_tracks = \<lparr>items = [], next_page = None\<rparr>\<rparr>"

definition road_trip_env :: env where
  "road_trip_env =
     \<lparr>spotify_playlist = (\<lambda>pid. if pid = ustr ''abc123'' then Inr road_trip
                                else if pid = ustr ''e0'' then Inr empty_playlist
                                else Inl (Exn (ustr ''http status: 404''))),
      spotify_next = (\<lambda>cursor. if cursor = ustr ''page2'' then Inr road_trip_page2
                                else Inl (Exn (ustr ''http status: 404''))),
      os_makedirs = (\<lambda>path files. Inr (insert path files)),
      subprocess_run = (\<lambda>command files.
         if last command = ustr ''ytsearch1:Artist A - Song One official audio''
         then (Inr \<lparr>returncode = 0, stderr = []\<rparr>,
               insert (ustr ''Music/Road Trip/Artist A - Song One.mp3'') files)
         else (Inr \<lparr>returncode = 1, stderr = ustr ''ERROR: no results''\<rparr>, files))\<rparr>"

definition test_config :: config where
  "test_config = \<lparr>cfg_audio_quality = ustr ''192K'', cfg_format = ustr ''mp3'',
                   cfg_video_format = ustr ''mp4''\<rparr>"

definition empty_world :: world where
  "empty_world = \<lparr>fs = {}, logs = [], calls = []\<rparr>"

section \<open>Properties of the sanitizer\<close>

lemma reserved_codes: "set reserved = {60, 62, 58, 34, 47, 92, 124, 63, 42}"
  by (simp add: reserved_def)

lemma underscore_code: "underscore = 95"
  by (simp add: underscore_def)

lemma underscore_not_reserved: "underscore \<notin> set reserved"
  by (simp add: reserved_codes underscore_code)

lemma sanitize_filename_Nil: "sanitize_filename [] = []"
  by (simp add: sanitize_filename_def)

lemma sanitize_filename_Cons:
  "sanitize_filename (c # cs) = (if c \<in> set reserved then underscore else c) # sanitize_filename cs"
  by (simp add: sanitize_filename_def)

lemma sanitize_filename_append:
  "sanitize_filename (a @ b) = sanitize_filename a @ sanitize_filename b"
  by (simp add: sanitize_filename_def)

lemma sanitize_filename_length: "length (sanitize_filename s) = length s"
  by (simp add: sanitize_filename_def)

lemma sanitize_filename_nth:
  "i < length s \<Longrightarrow> sanitize_filename s ! i = (if s ! i \<in> set reserved then underscore else s ! i)"
  by (simp add: sanitize_filename_def)

lemma sanitize_filename_clean: "c \<in> set (sanitize_filename s) \<Longrightarrow> c \<notin> set reserved"
  using underscore_not_reserved by (auto simp add: sanitize_filename_def)

lemma sanitize_filename_fixed:
  "set s \<inter> set reserved = {} \<Longrightarrow> sanitize_filename s = s"
  by (induction s) (auto simp add: sanitize_filename_Nil sanitize_filename_Cons)

lemma sanitize_filename_twice: "sanitize_filename (sanitize_filename s) = sanitize_filename s"
  by (rule sanitize_filename_fixed) (use sanitize_filename_clean in blast)


text \<open>
  C7: the sanitizer is a total function of its input; its output has the length of the
  input, contains no reserved character, and at every position holds an underscore where
  the input holds a reserved character and the input's own code point (a space, a letter,
  any Unicode code point) everywhere else.
\<close>

theorem sanitize_filename_spec:
  "length (sanitize_filename s) = length s
   \<and> set (sanitize_filename s) \<inter> set reserved = {}
   \<and> (\<forall>i < length s.
         sanitize_filename s ! i = (if s ! i \<in> set reserved then underscore else s ! i))"
  using sanitize_filename_clean [of _ s]
  by (auto simp add: sanitize_filename_length sanitize_filename_nth)

theorem sanitize_filename_spec_witness:
  "length (sanitize_filename (ustr ''AC/DC: '' @ [26085, 63])) = 9
   \<and> set (sanitize_filename (ustr ''AC/DC: '' @ [26085, 63])) \<inter> set reserved = {}
   \<and> sanitize_filename (ustr ''AC/DC: '' @ [26085, 63]) ! 2 = underscore
   \<and> sanitize_filename (ustr ''AC/DC: '' @ [26085, 63]) ! 7 = 26085"
proof -
  let ?s = "ustr ''AC/DC: '' @ [26085, 63]"
  have len: "length ?s = 9"
    by (simp add: ustr_def)
  have slash: "?s ! 2 \<in> set reserved"
    by (simp add: ustr_def reserved_codes)
  have kanji: "?s ! 7 = 26085" "?s ! 7 \<notin> set reserved"
    by (simp_all add: ustr_def reserved_codes)
  note spec = sanitize_filename_spec [of ?s]
  from spec have "length (sanitize_filename ?s) = 9"
    using len by simp
  moreover from spec have "set (sanitize_filename ?s) \<inter> set reserved = {}"
    by blast
  moreover from spec len have "sanitize_filename ?s ! 2 = underscore"
    using slash by simp
  moreover from spec len have "sanitize_filename ?s ! 7 = 26085"
    using kanji by simp
  ultimately show ?thesis
    by blast
qed

text \<open>C8: sanitizing twice is sanitizing once.\<close>

theorem sanitize_filename_idempotent:
  "sanitize_filename (sanitize_filename x) = sanitize_filename x"
  by (rule sanitize_filename_twice)

text \<open>
  C10: the sanitizer distributes over concatenation, which is why sanitizing the query
  together with its extension equals sanitizing the query and appending the extension.
\<close>

theorem sanitize_filename_distrib:
  "sanitize_filename (a @ b) = sanitize_filename a @ sanitize_filename b"
  by (rule sanitize_filename_append)

section \<open>Properties of one loop iteration\<close>

lemma process_item_null: "process_item env cfg full_path n_tracks i None st = st"
  by (simp add: process_item_def)



lemma log_fields [simp]:
  "fs (log m l w) = fs w" "calls (log m l w) = calls w" "logs (log m l w) = logs w @ [(l, m)]"
  by (simp_all add: log_def)

lemma record_call_fields [simp]:
  "fs (record_call e w) = fs w" "calls (record_call e w) = calls w @ [e]"
  "logs (record_call e w) = logs w"
  by (simp_all add: record_call_def)


text \<open>Each iteration adds one to exactly one counter for a track, and nothing for null.\<close>

lemma process_item_count:
  "process_item env cfg full_path n_tracks i item (c, w) = (c', w') \<Longrightarrow>
   successful_downloads c' + skipped_downloads c' + failed_downloads c' =
   successful_downloads c + skipped_downloads c + failed_downloads c
     + (if item = None then 0 else 1)"
  by (auto simp add: process_item_def Let_def split: option.splits prod.splits if_splits)

lemma track_loop_count:
  "track_loop env cfg full_path n_tracks i tracks (c, w) = (c', w') \<Longrightarrow>
   successful_downloads c' + skipped_downloads c' + failed_downloads c' =
   successful_downloads c + skipped_downloads c + failed_downloads c
     + length (filter (\<lambda>item. item \<noteq> None) tracks)"
proof (induction tracks arbitrary: i c w)
  case Nil
  then show ?case by simp
next
  case (Cons item rest)
  obtain c1 w1 where step: "process_item env cfg full_path n_tracks i item (c, w) = (c1, w1)"
    by (cases "process_item env cfg full_path n_tracks i item (c, w)")
  with Cons.prems have "track_loop env cfg full_path n_tracks (Suc i) rest (c1, w1) = (c', w')"
    by simp
  from Cons.IH [OF this] process_item_count [OF step] show ?case
    by (cases item) simp_all
qed



text \<open>
  C4: an entry whose track is null leaves the counters and the whole state (so also the
  record of downloader calls) as they were, and the loop goes on with the next entry.
\<close>

theorem null_track_ignored:
  "process_item env cfg full_path n_tracks i None (c, w) = (c, w)
   \<and> track_loop env cfg full_path n_tracks i (None # rest) (c, w) =
       track_loop env cfg full_path n_tracks (Suc i) rest (c, w)"
  by (simp add: process_item_null)


section \<open>Evaluating the scenario\<close>

lemma song_one_query: "track_query song_one = ustr ''Artist A - Song One''"
  by (simp add: track_query_def song_one_def ustr_def)

lemma song_two_query: "track_query song_two = ustr ''Artist B, Artist C - Song Two''"
  by (simp add: track_query_def song_two_def ustr_def)

lemma song_one_filename:
  "expected_filename (ustr ''Music/Road Trip'') song_one =
     ustr ''Music/Road Trip/Artist A - Song One.mp3''"
  by (simp add: expected_filename_def song_one_query)
     (simp add: path_join_def sanitize_filename_def reserved_codes ustr_def)

lemma song_two_filename:
  "expected_filename (ustr ''Music/Road Trip'') song_two =
     ustr ''Music/Road Trip/Artist B, Artist C - Song Two.mp3''"
  by (simp add: expected_filename_def song_two_query)
     (simp add: path_join_def sanitize_filename_def reserved_codes ustr_def)

lemma song_one_command:
  "last (build_command (ustr ''Artist A - Song One'') p False cfg) =
     ustr ''ytsearch1:Artist A - Song One official audio''"
  by (simp add: build_command_def Let_def is_url_def ustr_def)

lemma song_two_command:
  "last (build_command (ustr ''Artist B, Artist C - Song Two'') p False cfg) =
     ustr ''ytsearch1:Artist B, Artist C - Song Two official audio''"
  by (simp add: build_command_def Let_def is_url_def ustr_def)

lemma song_two_run:
  "subprocess_run road_trip_env (build_command (track_query song_two) p False cfg) files =
     (Inr \<lparr>returncode = 1, stderr = ustr ''ERROR: no results''\<rparr>, files)"
  by (simp add: road_trip_env_def song_two_query song_two_command) (simp add: ustr_def)

lemma song_one_run:
  "subprocess_run road_trip_env (build_command (track_query song_one) p False cfg) files =
     (Inr \<lparr>returncode = 0, stderr = []\<rparr>,
      insert (ustr ''Music/Road Trip/Artist A - Song One.mp3'') files)"
  by (simp add: road_trip_env_def song_one_query song_one_command)




section \<open>Pagination\<close>

lemma fetch_pages_last:
  "next_page pg = None \<Longrightarrow> fetch_pages env pg tracks w = Some (Inr tracks, w)"
  by (subst fetch_pages.simps) simp

lemma fetch_pages_more:
  "next_page pg = Some cursor \<Longrightarrow> spotify_next env cursor = Inr pg' \<Longrightarrow>
   fetch_pages env pg tracks w =
     fetch_pages env pg' (tracks @ items pg') (record_call (Next_request cursor) w)"
  by (subst fetch_pages.simps) simp

lemma fetch_pages_raise:
  "next_page pg = Some cursor \<Longrightarrow> spotify_next env cursor = Inl e \<Longrightarrow>
   fetch_pages env pg tracks w = Some (Inl e, record_call (Next_request cursor) w)"
  by (subst fetch_pages.simps) simp

lemma fetch_pages_chain:
  "page_chain env pg rest \<Longrightarrow>
   fetch_pages env pg tracks w =
     Some (Inr (tracks @ concat (map items rest)),
           w\<lparr>calls := calls w @ map Next_request (List.map_filter next_page (pg # rest))\<rparr>)"
proof (induction rest arbitrary: pg tracks w)
  case Nil
  then show ?case
    by (simp add: fetch_pages_last)
next
  case (Cons p ps)
  from Cons.prems obtain cursor where
    cur: "next_page pg = Some cursor" and
    nxt: "spotify_next env cursor = Inr p" and
    chain: "page_chain env p ps"
    by (auto split: option.splits)
  have "fetch_pages env pg tracks w =
      fetch_pages env p (tracks @ items p) (record_call (Next_request cursor) w)"
    by (rule fetch_pages_more [OF cur nxt])
  also have "\<dots> = Some (Inr ((tracks @ items p) @ concat (map items ps)),
      (record_call (Next_request cursor) w)
        \<lparr>calls := calls (record_call (Next_request cursor) w)
                    @ map Next_request (List.map_filter next_page (p # ps))\<rparr>)"
    by (rule Cons.IH [OF chain])
  finally show ?case
    using cur by (simp add: record_call_def)
qed

lemma page_chain_cursors:
  "page_chain env pg rest \<Longrightarrow>
   List.map_filter next_page (pg # rest) = map (the \<circ> next_page) (butlast (pg # rest))
   \<and> next_page (last (pg # rest)) = None"
proof (induction rest arbitrary: pg)
  case Nil
  then show ?case by simp
next
  case (Cons p ps)
  from Cons.prems obtain cursor where
    cur: "next_page pg = Some cursor" and chain: "page_chain env p ps"
    by (auto split: option.splits)
  have split: "List.map_filter next_page (pg # p # ps) = cursor # List.map_filter next_page (p # ps)"
    using cur by simp
  from Cons.IH [OF chain] cur show ?case
    unfolding split by simp
qed

text \<open>
  C5: when the catalog holds the playlist as the first page \<open>pg\<close> followed by the pages
  \<open>rest\<close>, the pagination loop returns, and the track sequence handed to the per-track loop
  is the concatenation of the pages' item lists in page order, so its length is the sum of
  the pages' item counts. The loop asks for one more page for every cursor that is not
  null, in order, and for nothing after the page whose cursor is null, which is the last
  one. A single page without items and without cursor gives the empty sequence.
\<close>

theorem pagination_spec:
  assumes "page_chain env pg rest"
  shows "fetch_pages env pg (items pg) w =
           Some (Inr (concat (map items (pg # rest))),
                 w\<lparr>calls := calls w @ map Next_request (List.map_filter next_page (pg # rest))\<rparr>)
    \<and> length (concat (map items (pg # rest))) = sum_list (map (length \<circ> items) (pg # rest))
    \<and> List.map_filter next_page (pg # rest) = map (the \<circ> next_page) (butlast (pg # rest))
    \<and> next_page (last (pg # rest)) = None
    \<and> fetch_pages env \<lparr>items = [], next_page = None\<rparr> [] w = Some (Inr [], w)"
proof -
  have "fetch_pages env pg (items pg) w =
           Some (Inr (concat (map items (pg # rest))),
                 w\<lparr>calls := calls w @ map Next_request (List.map_filter next_page (pg # rest))\<rparr>)"
    using fetch_pages_chain [OF assms, of "items pg" w] by simp
  moreover have "length (concat (map items (pg # rest))) =
      sum_list (map (length \<circ> items) (pg # rest))"
    by (simp add: length_concat comp_def)
  moreover have "fetch_pages env \<lparr>items = [], next_page = None\<rparr> [] w = Some (Inr [], w)"
    by (simp add: fetch_pages_last)
  ultimately show ?thesis
    using page_chain_cursors [OF assms] by blast
qed

theorem pagination_spec_witness:
  "page_chain road_trip_env road_trip_page1 [road_trip_page2]
   \<and> fetch_pages road_trip_env road_trip_page1 (items road_trip_page1) empty_world =
       Some (Inr [Some song_one, None, Some song_two],
             \<lparr>fs = {}, logs = [], calls = [Next_request (ustr ''page2'')]\<rparr>)
   \<and> page_chain road_trip_env (playlist_tracks empty_playlist) []
   \<and> fetch_pages road_trip_env (playlist_tracks empty_playlist)
         (items (playlist_tracks empty_playlist)) empty_world = Some (Inr [], empty_world)"
proof -
  have chain: "page_chain road_trip_env road_trip_page1 [road_trip_page2]"
    by (simp add: road_trip_page1_def road_trip_page2_def road_trip_env_def)
  have none: "page_chain road_trip_env (playlist_tracks empty_playlist) []"
    by (simp add: empty_playlist_def)
  from pagination_spec [OF chain, of empty_world]
  have "fetch_pages road_trip_env road_trip_page1 (items road_trip_page1) empty_world =
       Some (Inr [Some song_one, None, Some song_two],
             \<lparr>fs = {}, logs = [], calls = [Next_request (ustr ''page2'')]\<rparr>)"
    by (simp add: road_trip_page1_def road_trip_page2_def empty_world_def)
  moreover from pagination_spec [OF none, of empty_world]
  have "fetch_pages road_trip_env (playlist_tracks empty_playlist)
         (items (playlist_tracks empty_playlist)) empty_world = Some (Inr [], empty_world)"
    by (simp add: empty_playlist_def empty_world_def)
  ultimately show ?thesis
    using chain none by blast
qed

section \<open>The whole conversion\<close>

lemma convert_invalid:
  "search_playlist url = None \<Longrightarrow>
   convert_spotify_playlist env url output_dir cfg w =
     Some (Invalid_url, log (ustr ''Invalid Spotify playlist URL'') Error w)"
  by (simp add: convert_spotify_playlist_def)

lemma convert_completed:
  assumes "convert_spotify_playlist env url output_dir cfg w = Some (Completed c, w')"
  obtains pid pl files tracks w4 w6 where
    "search_playlist url = Some pid"
    "spotify_playlist env pid = Inr pl"
    "os_makedirs env (path_join output_dir (sanitize_filename (playlist_name pl))) (fs w) = Inr files"
    "fetch_pages env (playlist_tracks pl) (items (playlist_tracks pl))
       (log (ustr ''Output directory: ''
              @ path_join output_dir (sanitize_filename (playlist_name pl))) Info
         (log (ustr ''Playlist: '' @ sanitize_filename (playlist_name pl)) Info
           ((record_call (Makedirs (path_join output_dir (sanitize_filename (playlist_name pl))))
              (record_call (Playlist_request pid) w))\<lparr>fs := files\<rparr>)))
     = Some (Inr tracks, w4)"
    "track_loop env cfg (path_join output_dir (sanitize_filename (playlist_name pl)))
       (length tracks) 1 tracks
       (\<lparr>successful_downloads = 0, skipped_downloads = 0, failed_downloads = 0\<rparr>,
        log (ustr ''Found '' @ str_nat (length tracks) @ ustr '' tracks in playlist'') Info w4)
     = (c, w6)"
    "w' = log (summary_line c) Info w6"
  using assms
  by (auto simp add: convert_spotify_playlist_def Let_def abort_def
      split: option.splits sum.splits prod.splits)

text \<open>
  C9: when the search for the reference pattern fails, the conversion returns at once as
  an invalid reference: the only effect is the error line on the console, no call leaves
  the program (no catalog request, no directory creation, no downloader) and the set of
  files is what it was.
\<close>

theorem invalid_reference_rejected:
  assumes "search_playlist url = None"
  shows "\<exists>w'. convert_spotify_playlist env url output_dir cfg w = Some (Invalid_url, w')
    \<and> calls w' = calls w \<and> fs w' = fs w
    \<and> logs w' = logs w @ [(Error, ustr ''Invalid Spotify playlist URL'')]"
  by (simp add: convert_invalid [OF assms])

text \<open>
  C1: in a conversion that reaches its summary line, the three counters of that line are
  the ones the per-track loop ends with, and their sum is the number of entries of the
  aggregated track list whose track is not null. The same holds after every iteration:
  the loop run on the first \<open>k\<close> entries ends with counters whose sum is the number of
  non-null tracks among them.
\<close>

theorem counters_account_for_tracks:
  assumes "convert_spotify_playlist env url output_dir cfg w = Some (Completed c, w')"
  shows "\<exists>pid pl full_path tracks w3 w4 w5.
      search_playlist url = Some pid
    \<and> spotify_playlist env pid = Inr pl
    \<and> fetch_pages env (playlist_tracks pl) (items (playlist_tracks pl)) w3 = Some (Inr tracks, w4)
    \<and> c = fst (track_loop env cfg full_path (length tracks) 1 tracks
                 (\<lparr>successful_downloads = 0, skipped_downloads = 0, failed_downloads = 0\<rparr>, w5))
    \<and> successful_downloads c + skipped_downloads c + failed_downloads c =
        length (filter (\<lambda>item. item \<noteq> None) tracks)
    \<and> last (logs w') = (Info, summary_line c)
    \<and> (\<forall>k \<le> length tracks.
          let c_k = fst (track_loop env cfg full_path (length tracks) 1 (take k tracks)
                      (\<lparr>successful_downloads = 0, skipped_downloads = 0, failed_downloads = 0\<rparr>, w5))
          in successful_downloads c_k + skipped_downloads c_k + failed_downloads c_k =
               length (filter (\<lambda>item. item \<noteq> None) (take k tracks)))"
proof -
  let ?zero = "\<lparr>successful_downloads = 0, skipped_downloads = 0, failed_downloads = 0\<rparr>"
  from assms obtain pid pl files tracks w4 w6 where
    ref: "search_playlist url = Some pid" and
    pl: "spotify_playlist env pid = Inr pl" and
    pages: "fetch_pages env (playlist_tracks pl) (items (playlist_tracks pl))
       (log (ustr ''Output directory: ''
              @ path_join output_dir (sanitize_filename (playlist_name pl))) Info
         (log (ustr ''Playlist: '' @ sanitize_filename (playlist_name pl)) Info
           ((record_call (Makedirs (path_join output_dir (sanitize_filename (playlist_name pl))))
              (record_call (Playlist_request pid) w))\<lparr>fs := files\<rparr>)))
     = Some (Inr tracks, w4)" and
    loop: "track_loop env cfg (path_join output_dir (sanitize_filename (playlist_name pl)))
       (length tracks) 1 tracks
       (?zero, log (ustr ''Found '' @ str_nat (length tracks) @ ustr '' tracks in playlist'') Info w4)
     = (c, w6)" and
    out: "w' = log (summary_line c) Info w6"
    by (rule convert_completed)
  let ?fp = "path_join output_dir (sanitize_filename (playlist_name pl))"
  let ?w5 = "log (ustr ''Found '' @ str_nat (length tracks) @ ustr '' tracks in playlist'') Info w4"
  have sum: "successful_downloads c + skipped_downloads c + failed_downloads c =
        length (filter (\<lambda>item. item \<noteq> None) tracks)"
    using track_loop_count [OF loop] by simp
  have inv: "successful_downloads (fst (track_loop env cfg ?fp n i xs (?zero, ?w5)))
      + skipped_downloads (fst (track_loop env cfg ?fp n i xs (?zero, ?w5)))
      + failed_downloads (fst (track_loop env cfg ?fp n i xs (?zero, ?w5))) =
        length (filter (\<lambda>item. item \<noteq> None) xs)" for n i xs
    using track_loop_count [of env cfg ?fp n i xs ?zero ?w5
        "fst (track_loop env cfg ?fp n i xs (?zero, ?w5))"
        "snd (track_loop env cfg ?fp n i xs (?zero, ?w5))"]
    by simp
  have final: "c = fst (track_loop env cfg ?fp (length tracks) 1 tracks (?zero, ?w5))"
    using loop by simp
  have summary: "last (logs w') = (Info, summary_line c)"
    using out by simp
  have prefixes: "\<forall>k \<le> length tracks.
          let c_k = fst (track_loop env cfg ?fp (length tracks) 1 (take k tracks) (?zero, ?w5))
          in successful_downloads c_k + skipped_downloads c_k + failed_downloads c_k =
               length (filter (\<lambda>item. item \<noteq> None) (take k tracks))"
    using inv by (simp add: Let_def)
  from ref pl pages final sum summary prefixes show ?thesis
    by blast
qed

section \<open>The scenario, run\<close>

lemma road_trip_reference: "search_playlist (ustr ''spotify:playlist:abc123'') = Some (ustr ''abc123'')"
  by code_simp

lemma road_trip_dir: "path_join (ustr ''Music'') (sanitize_filename (playlist_name road_trip)) = ustr ''Music/Road Trip''"
  by (simp add: road_trip_def path_join_def sanitize_filename_def reserved_codes ustr_def)

lemma road_trip_pages:
  "fetch_pages road_trip_env road_trip_page1 (items road_trip_page1) w =
     Some (Inr [Some song_one, None, Some song_two], record_call (Next_request (ustr ''page2'')) w)"
proof -
  have "page_chain road_trip_env road_trip_page1 [road_trip_page2]"
    by (simp add: road_trip_page1_def road_trip_page2_def road_trip_env_def)
  from fetch_pages_chain [OF this, of "items road_trip_page1" w] show ?thesis
    by (simp add: road_trip_page1_def road_trip_page2_def record_call_def)
qed

lemma song_one_step:
  assumes "ustr ''Music/Road Trip/Artist A - Song One.mp3'' \<notin> fs w"
  shows "fst (process_item road_trip_env cfg (ustr ''Music/Road Trip'') n i (Some song_one) (c, w))
      = c\<lparr>successful_downloads := successful_downloads c + 1\<rparr>
    \<and> fs (snd (process_item road_trip_env cfg (ustr ''Music/Road Trip'') n i (Some song_one) (c, w)))
      = insert (ustr ''Music/Road Trip/Artist A - Song One.mp3'') (fs w)"
  using assms
  by (simp add: process_item_def song_one_filename download_youtube_def song_one_run Let_def)

lemma song_two_step:
  assumes "ustr ''Music/Road Trip/Artist B, Artist C - Song Two.mp3'' \<notin> fs w"
  shows "fst (process_item road_trip_env cfg (ustr ''Music/Road Trip'') n i (Some song_two) (c, w))
      = c\<lparr>failed_downloads := failed_downloads c + 1\<rparr>
    \<and> fs (snd (process_item road_trip_env cfg (ustr ''Music/Road Trip'') n i (Some song_two) (c, w)))
      = fs w"
  using assms
  by (simp add: process_item_def song_two_filename download_youtube_def song_two_run Let_def)

lemma names_differ:
  "ustr ''Music/Road Trip/Artist A - Song One.mp3'' \<noteq> ustr ''Music/Road Trip''"
  "ustr ''Music/Road Trip/Artist B, Artist C - Song Two.mp3'' \<noteq> ustr ''Music/Road Trip''"
  "ustr ''Music/Road Trip/Artist B, Artist C - Song Two.mp3''
     \<noteq> ustr ''Music/Road Trip/Artist A - Song One.mp3''"
  by (simp_all add: ustr_def)

lemma road_trip_loop:
  assumes "fs w = {ustr ''Music/Road Trip''}"
  shows "fst (track_loop road_trip_env cfg (ustr ''Music/Road Trip'') n i
           [Some song_one, None, Some song_two]
           (\<lparr>successful_downloads = 0, skipped_downloads = 0, failed_downloads = 0\<rparr>, w))
     = \<lparr>successful_downloads = 1, skipped_downloads = 0, failed_downloads = 1\<rparr>"
proof -
  let ?fp = "ustr ''Music/Road Trip''"
  let ?c0 = "\<lparr>successful_downloads = 0, skipped_downloads = 0, failed_downloads = 0\<rparr>"
  let ?s1 = "process_item road_trip_env cfg ?fp n i (Some song_one) (?c0, w)"
  have one: "fst ?s1 = \<lparr>successful_downloads = 1, skipped_downloads = 0, failed_downloads = 0\<rparr>"
    "fs (snd ?s1) = {ustr ''Music/Road Trip/Artist A - Song One.mp3'', ustr ''Music/Road Trip''}"
    using song_one_step [of w cfg n i ?c0] assms names_differ by simp_all
  let ?s3 = "process_item road_trip_env cfg ?fp n (Suc (Suc i)) (Some song_two) (fst ?s1, snd ?s1)"
  have "fst ?s3 = \<lparr>successful_downloads = 1, skipped_downloads = 0, failed_downloads = 1\<rparr>"
    using song_two_step [of "snd ?s1" cfg n "Suc (Suc i)" "fst ?s1"] one names_differ by simp
  then show ?thesis
    by (simp add: process_item_null)
qed

lemma convert_success:
  assumes "search_playlist url = Some pid"
    and "spotify_playlist env pid = Inr pl"
    and "full_path = path_join output_dir (sanitize_filename (playlist_name pl))"
    and "os_makedirs env full_path (fs w) = Inr files"
    and "fetch_pages env (playlist_tracks pl) (items (playlist_tracks pl))
       (log (ustr ''Output directory: '' @ full_path) Info
         (log (ustr ''Playlist: '' @ sanitize_filename (playlist_name pl)) Info
           ((record_call (Makedirs full_path)
              (record_call (Playlist_request pid) w))\<lparr>fs := files\<rparr>)))
     = Some (Inr tracks, w4)"
    and "track_loop env cfg full_path (length tracks) 1 tracks
       (\<lparr>successful_downloads = 0, skipped_downloads = 0, failed_downloads = 0\<rparr>,
        log (ustr ''Found '' @ str_nat (length tracks) @ ustr '' tracks in playlist'') Info w4)
     = (c, w6)"
  shows "convert_spotify_playlist env url output_dir cfg w =
           Some (Completed c, log (summary_line c) Info w6)"
  using assms(1,2,4,5,6) unfolding assms(3)
  by (simp add: convert_spotify_playlist_def Let_def del: track_loop.simps)

lemma road_trip_run:
  "\<exists>w'. convert_spotify_playlist road_trip_env (ustr ''spotify:playlist:abc123'')
          (ustr ''Music'') test_config empty_world
        = Some (Completed \<lparr>successful_downloads = 1, skipped_downloads = 0,
                            failed_downloads = 1\<rparr>, w')
      \<and> last (logs w') = (Info, ustr ''Download complete: 1 successful, 0 skipped, 1 failed'')"
proof -
  let ?fp = "ustr ''Music/Road Trip''"
  let ?tracks = "[Some song_one, None, Some song_two]"
  let ?w3 = "log (ustr ''Output directory: '' @ ?fp) Info
         (log (ustr ''Playlist: '' @ sanitize_filename (playlist_name road_trip)) Info
           ((record_call (Makedirs ?fp)
              (record_call (Playlist_request (ustr ''abc123'')) empty_world))
            \<lparr>fs := insert ?fp (fs empty_world)\<rparr>))"
  let ?w5 = "log (ustr ''Found '' @ str_nat (length ?tracks) @ ustr '' tracks in playlist'') Info
               (record_call (Next_request (ustr ''page2'')) ?w3)"
  let ?zero = "\<lparr>successful_downloads = 0, skipped_downloads = 0, failed_downloads = 0\<rparr>"
  let ?c = "\<lparr>successful_downloads = 1, skipped_downloads = 0, failed_downloads = 1\<rparr>"
  have pl: "spotify_playlist road_trip_env (ustr ''abc123'') = Inr road_trip"
    by (simp add: road_trip_env_def)
  have mk: "os_makedirs road_trip_env ?fp (fs empty_world) = Inr (insert ?fp (fs empty_world))"
    by (simp add: road_trip_env_def)
  have pages: "fetch_pages road_trip_env (playlist_tracks road_trip)
      (items (playlist_tracks road_trip)) ?w3
      = Some (Inr ?tracks, record_call (Next_request (ustr ''page2'')) ?w3)"
    by (simp add: road_trip_def road_trip_pages)
  have files: "fs ?w5 = {?fp}"
    by (simp add: empty_world_def)
  obtain c w6 where loop:
    "track_loop road_trip_env test_config ?fp (length ?tracks) 1 ?tracks (?zero, ?w5) = (c, w6)"
    by (cases "track_loop road_trip_env test_config ?fp (length ?tracks) 1 ?tracks (?zero, ?w5)")
  from road_trip_loop [OF files, of test_config "length ?tracks" 1] loop have c: "c = ?c"
    by simp
  have line: "summary_line ?c = ustr ''Download complete: 1 successful, 0 skipped, 1 failed''"
    by (simp add: summary_line_def str_nat.simps ustr_def)
  have "convert_spotify_playlist road_trip_env (ustr ''spotify:playlist:abc123'')
          (ustr ''Music'') test_config empty_world
        = Some (Completed c, log (summary_line c) Info w6)"
    by (rule convert_success [OF road_trip_reference pl road_trip_dir [symmetric] mk pages loop])
  then show ?thesis
    using c line by simp
qed

section \<open>The reference pattern\<close>

lemma marker_length: "length (ustr ''playlist/'') = 9" "length (ustr ''playlist:'') = 9"
  by (simp_all add: ustr_def)

lemma match_playlist_at_iff:
  "match_playlist_at s \<noteq> None \<longleftrightarrow>
     (\<exists>marker c post. s = marker @ c # post
        \<and> (marker = ustr ''playlist/'' \<or> marker = ustr ''playlist:'') \<and> is_alnum c)"
proof
  assume "match_playlist_at s \<noteq> None"
  then have marker: "take 9 s = ustr ''playlist/'' \<or> take 9 s = ustr ''playlist:''"
    and run: "takeWhile is_alnum (drop 9 s) \<noteq> []"
    by (auto simp add: match_playlist_at_def Let_def split: if_splits)
  from run obtain c post where rest: "drop 9 s = c # post" and "is_alnum c"
    by (cases "drop 9 s") (auto split: if_splits)
  moreover have "s = take 9 s @ c # post"
    using rest append_take_drop_id [of 9 s] by simp
  ultimately show "\<exists>marker c post. s = marker @ c # post
        \<and> (marker = ustr ''playlist/'' \<or> marker = ustr ''playlist:'') \<and> is_alnum c"
    using marker by blast
next
  assume "\<exists>marker c post. s = marker @ c # post
        \<and> (marker = ustr ''playlist/'' \<or> marker = ustr ''playlist:'') \<and> is_alnum c"
  then obtain marker c post where s: "s = marker @ c # post"
    and marker: "marker = ustr ''playlist/'' \<or> marker = ustr ''playlist:''"
    and c: "is_alnum c"
    by blast
  from marker have len: "length marker = 9"
    using marker_length by auto
  with s have "take 9 s = marker" "drop 9 s = c # post"
    by simp_all
  with marker c show "match_playlist_at s \<noteq> None"
    by (auto simp add: match_playlist_at_def Let_def)
qed

lemma search_playlist_None_suffixes:
  "search_playlist s = None \<longleftrightarrow> (\<forall>pre rest. s = pre @ rest \<longrightarrow> match_playlist_at rest = None)"
proof (induction s)
  case Nil
  have "match_playlist_at [] = None"
    by (simp add: match_playlist_at_def ustr_def)
  then show ?case by simp
next
  case (Cons c cs)
  have "search_playlist (c # cs) = None \<longleftrightarrow>
      match_playlist_at (c # cs) = None \<and> search_playlist cs = None"
    by (simp split: option.splits)
  also have "\<dots> \<longleftrightarrow> match_playlist_at (c # cs) = None
      \<and> (\<forall>pre rest. cs = pre @ rest \<longrightarrow> match_playlist_at rest = None)"
    by (simp only: Cons.IH)
  also have "\<dots> \<longleftrightarrow> (\<forall>pre rest. c # cs = pre @ rest \<longrightarrow> match_playlist_at rest = None)"
    by (auto simp add: Cons_eq_append_conv)
  finally show ?case .
qed

text \<open>
  The search fails exactly on the strings that nowhere hold \<^verbatim>\<open>playlist/\<close> or \<^verbatim>\<open>playlist:\<close>
  followed by an ASCII letter or digit.
\<close>

lemma search_playlist_None_iff:
  "search_playlist s = None \<longleftrightarrow>
     \<not> (\<exists>pre marker c post. s = pre @ marker @ c # post
           \<and> (marker = ustr ''playlist/'' \<or> marker = ustr ''playlist:'') \<and> is_alnum c)"
proof
  assume none: "search_playlist s = None"
  show "\<not> (\<exists>pre marker c post. s = pre @ marker @ c # post
           \<and> (marker = ustr ''playlist/'' \<or> marker = ustr ''playlist:'') \<and> is_alnum c)"
  proof
    assume "\<exists>pre marker c post. s = pre @ marker @ c # post
           \<and> (marker = ustr ''playlist/'' \<or> marker = ustr ''playlist:'') \<and> is_alnum c"
    then obtain pre marker c post where s: "s = pre @ (marker @ c # post)"
      and m: "marker = ustr ''playlist/'' \<or> marker = ustr ''playlist:''" and c: "is_alnum c"
      by auto
    from m c have "match_playlist_at (marker @ c # post) \<noteq> None"
      unfolding match_playlist_at_iff by blast
    moreover from none s have "match_playlist_at (marker @ c # post) = None"
      unfolding search_playlist_None_suffixes by blast
    ultimately show False
      by simp
  qed
next
  assume absent: "\<not> (\<exists>pre marker c post. s = pre @ marker @ c # post
           \<and> (marker = ustr ''playlist/'' \<or> marker = ustr ''playlist:'') \<and> is_alnum c)"
  have "match_playlist_at rest = None" if s: "s = pre @ rest" for pre rest
  proof (rule ccontr)
    assume "match_playlist_at rest \<noteq> None"
    then obtain marker c post where "rest = marker @ c # post"
      and "marker = ustr ''playlist/'' \<or> marker = ustr ''playlist:''" and "is_alnum c"
      unfolding match_playlist_at_iff by blast
    with s absent show False
      by blast
  qed
  then show "search_playlist s = None"
    unfolding search_playlist_None_suffixes by blast
qed

lemma search_playlist_id:
  "search_playlist s = Some g \<Longrightarrow> g \<noteq> [] \<and> (\<forall>c \<in> set g. is_alnum c)"
proof (induction s)
  case Nil
  then show ?case by simp
next
  case (Cons c cs)
  show ?case
  proof (cases "match_playlist_at (c # cs)")
    case None
    with Cons show ?thesis by simp
  next
    case (Some g')
    with Cons.prems have "g' = g" by simp
    with Some show ?thesis
      by (auto simp add: match_playlist_at_def Let_def split: if_splits dest: set_takeWhileD)
  qed
qed

lemma convert_completes:
  assumes "search_playlist url = Some pid"
    and "spotify_playlist env pid = Inr pl"
    and "os_makedirs env (path_join output_dir (sanitize_filename (playlist_name pl))) (fs w)
           = Inr files"
    and "page_chain env (playlist_tracks pl) rest"
  shows "\<exists>c w'. convert_spotify_playlist env url output_dir cfg w = Some (Completed c, w')"
proof -
  let ?fp = "path_join output_dir (sanitize_filename (playlist_name pl))"
  let ?w3 = "log (ustr ''Output directory: '' @ ?fp) Info
         (log (ustr ''Playlist: '' @ sanitize_filename (playlist_name pl)) Info
           ((record_call (Makedirs ?fp) (record_call (Playlist_request pid) w))\<lparr>fs := files\<rparr>))"
  from fetch_pages_chain [OF assms(4), of "items (playlist_tracks pl)" ?w3]
  obtain tracks w4 where pages:
    "fetch_pages env (playlist_tracks pl) (items (playlist_tracks pl)) ?w3 = Some (Inr tracks, w4)"
    by blast
  obtain c w6 where loop: "track_loop env cfg ?fp (length tracks) 1 tracks
       (\<lparr>successful_downloads = 0, skipped_downloads = 0, failed_downloads = 0\<rparr>,
        log (ustr ''Found '' @ str_nat (length tracks) @ ustr '' tracks in playlist'') Info w4)
     = (c, w6)"
    by (cases "track_loop env cfg ?fp (length tracks) 1 tracks
       (\<lparr>successful_downloads = 0, skipped_downloads = 0, failed_downloads = 0\<rparr>,
        log (ustr ''Found '' @ str_nat (length tracks) @ ustr '' tracks in playlist'') Info w4)")
  from convert_success [OF assms(1,2) refl assms(3) pages loop] show ?thesis
    by blast
qed

theorem invalid_reference_rejected_witness:
  "search_playlist (ustr ''https://open.spotify.com/album/abc123'') = None
   \<and> (\<exists>w'. convert_spotify_playlist road_trip_env (ustr ''https://open.spotify.com/album/abc123'')
              (ustr ''Music'') test_config empty_world = Some (Invalid_url, w')
          \<and> calls w' = [] \<and> fs w' = {}
          \<and> logs w' = [(Error, ustr ''Invalid Spotify playlist URL'')])"
proof -
  have none: "search_playlist (ustr ''https://open.spotify.com/album/abc123'') = None"
    by code_simp
  from invalid_reference_rejected [OF none, of road_trip_env "ustr ''Music''" test_config empty_world]
  show ?thesis
    using none by (simp add: empty_world_def)
qed

theorem counters_account_for_tracks_witness:
  "\<exists>w'. convert_spotify_playlist road_trip_env (ustr ''spotify:playlist:abc123'')
          (ustr ''Music'') test_config empty_world
        = Some (Completed \<lparr>successful_downloads = 1, skipped_downloads = 0,
                            failed_downloads = 1\<rparr>, w')
      \<and> (\<exists>tracks w3 w4.
            fetch_pages road_trip_env (playlist_tracks road_trip)
              (items (playlist_tracks road_trip)) w3 = Some (Inr tracks, w4)
          \<and> length (filter (\<lambda>item. item \<noteq> None) tracks) = 2)
      \<and> last (logs w') = (Info, ustr ''Download complete: 1 successful, 0 skipped, 1 failed'')"
proof -
  let ?c = "\<lparr>successful_downloads = 1, skipped_downloads = 0, failed_downloads = 1\<rparr>"
  from road_trip_run obtain w' where
    run: "convert_spotify_playlist road_trip_env (ustr ''spotify:playlist:abc123'')
          (ustr ''Music'') test_config empty_world = Some (Completed ?c, w')" and
    line: "last (logs w') = (Info, ustr ''Download complete: 1 successful, 0 skipped, 1 failed'')"
    by blast
  from counters_account_for_tracks [OF run] obtain pid pl tracks w3 w4 where
    pid: "search_playlist (ustr ''spotify:playlist:abc123'') = Some pid" and
    pl: "spotify_playlist road_trip_env pid = Inr pl" and
    pages: "fetch_pages road_trip_env (playlist_tracks pl) (items (playlist_tracks pl)) w3
             = Some (Inr tracks, w4)" and
    sum: "successful_downloads ?c + skipped_downloads ?c + failed_downloads ?c =
            length (filter (\<lambda>item. item \<noteq> None) tracks)"
    by blast
  from pid road_trip_reference have "pid = ustr ''abc123''"
    by simp
  with pl have "pl = road_trip"
    by (simp add: road_trip_env_def)
  with pages have pages': "fetch_pages road_trip_env (playlist_tracks road_trip)
      (items (playlist_tracks road_trip)) w3 = Some (Inr tracks, w4)"
    by simp
  from sum have "length (filter (\<lambda>item. item \<noteq> None) tracks) = 2"
    by simp
  with pages' have "\<exists>tracks w3 w4.
            fetch_pages road_trip_env (playlist_tracks road_trip)
              (items (playlist_tracks road_trip)) w3 = Some (Inr tracks, w4)
          \<and> length (filter (\<lambda>item. item \<noteq> None) tracks) = 2"
    by blast
  with run line show ?thesis
    by blast
qed

end
